theory Spec2Isabelle
  imports Main
begin

section \<open>Data model of the help-desk agent (chapter4/src/agent.py)\<close>

text \<open>
  Python strings are modelled as \<open>string\<close>; a non-ASCII literal of the source is the
  list of the bytes of its UTF-8 encoding.

  A Python dict with optional keys is a record whose optional fields are of type
  \<open>'a field\<close>: the key is absent, or present with the value \<open>None\<close>, or present
  with a value.
\<close>

datatype 'a field = Absent | Null | Val 'a

datatype error =
    ApiError            \<comment> \<open>the provider call raised; every node re-raises it\<close>
  | ToolCallsIsNone     \<comment> \<open>ValueError raised by select\_tools and execute\_tools\<close>
  | ReflectionIsNone    \<comment> \<open>ValueError raised by reflect\_subtask\<close>
  | PlanIsNone          \<comment> \<open>AttributeError: \<open>plan.subtasks\<close> on a \<open>None\<close> parse\<close>
  | KeyError string     \<comment> \<open>a dict lookup with a missing key\<close>
  | IndexError          \<comment> \<open>\<open>messages[-1]\<close> on an empty list\<close>
  | ToolError           \<comment> \<open>\<open>tool.invoke\<close> raised\<close>

text \<open>One element of \<open>tool_calls\<close>, as \<open>tool_call.model_dump()\<close> stores it:
  \<open>tool_call["id"]\<close>, \<open>tool_call["function"]["name"]\<close> and
  \<open>tool_call["function"]["arguments"]\<close>. The provider's client library declares
  \<open>arguments\<close> as \<open>str\<close>, the text of a JSON document, and \<open>model_dump\<close>
  keeps it so.\<close>

record tool_call =
  call_id :: string
  function_name :: string
  function_arguments :: string

text \<open>\<open>ChatCompletionMessageParam\<close>: a dict with the key \<open>role\<close> and the optional
  keys \<open>content\<close>, \<open>tool_calls\<close> and \<open>tool_call_id\<close>.\<close>

record message =
  role :: string
  content :: "string field"
  tool_calls :: "tool_call list field"
  tool_call_id :: "string field"

text \<open>\<open>src.models\<close> is not part of the sources at hand. \<open>SearchOutput\<close> is only
  passed around by the agent, \<open>ToolResult\<close>, \<open>ReflectionResult\<close>, \<open>Subtask\<close>
  and \<open>AgentResult\<close> have the fields the agent writes and reads.\<close>

datatype search_output = SearchOutput string string

record tool_result =
  tool_name :: string
  args :: string
  results :: "search_output list"

record reflection_result =
  r_is_completed :: bool
  r_advice :: string

record subtask_rec =
  task_name :: string
  t_tool_results :: "tool_result list list"
  t_reflection_results :: "reflection_result list"
  t_is_completed :: bool
  t_subtask_answer :: string
  t_challenge_count :: int

record agent_result =
  res_question :: string
  res_plan :: "string list"
  subtasks :: "subtask_rec list"
  answer :: string

text \<open>\<open>AgentSubGraphState\<close>. The fields \<open>tool_results\<close> and
  \<open>reflection_results\<close> are annotated with \<open>operator.add\<close>; a key that no node
  has written yet holds the empty list (\<open>messages\<close>, the annotated fields) or the empty
  string (\<open>subtask_answer\<close>): the first round writes each of them before reading it.\<close>

record sub_state =
  question :: string
  plan :: "string list"
  subtask :: string
  is_completed :: bool
  messages :: "message list"
  challenge_count :: int
  tool_results :: "tool_result list list"
  reflection_results :: "reflection_result list"
  subtask_answer :: string

text \<open>The dict a node of the sub-graph returns: the keys it writes.\<close>

record sub_update =
  u_messages :: "message list option"
  u_tool_results :: "tool_result list list option"
  u_reflection_results :: "reflection_result list option"
  u_challenge_count :: "int option"
  u_is_completed :: "bool option"
  u_subtask_answer :: "string option"

definition no_update :: sub_update where
  "no_update = \<lparr>u_messages = None, u_tool_results = None, u_reflection_results = None,
     u_challenge_count = None, u_is_completed = None, u_subtask_answer = None\<rparr>"

text \<open>The state merge of the sub-graph, read off the annotations of
  \<open>AgentSubGraphState\<close>: \<open>operator.add\<close> on the two annotated fields, overwrite on
  the others.\<close>

definition merge_sub :: "sub_state \<Rightarrow> sub_update \<Rightarrow> sub_state" where
  "merge_sub s u = s\<lparr>
     messages := (case u_messages u of None \<Rightarrow> messages s | Some m \<Rightarrow> m),
     tool_results := (case u_tool_results u of None \<Rightarrow> tool_results s
                      | Some t \<Rightarrow> tool_results s @ t),
     reflection_results := (case u_reflection_results u of None \<Rightarrow> reflection_results s
                      | Some r \<Rightarrow> reflection_results s @ r),
     challenge_count := (case u_challenge_count u of None \<Rightarrow> challenge_count s | Some c \<Rightarrow> c),
     is_completed := (case u_is_completed u of None \<Rightarrow> is_completed s | Some b \<Rightarrow> b),
     subtask_answer := (case u_subtask_answer u of None \<Rightarrow> subtask_answer s | Some a \<Rightarrow> a)\<rparr>"

subsection \<open>Settings, prompts, tools and the model client\<close>

text \<open>\<open>Settings\<close> (chapter4/src/configs.py): eight fields, unknown keys are
  ignored (\<open>extra="ignore"\<close>).\<close>

record settings =
  openai_api_key :: "string option"
  openai_api_base :: "string option"
  openai_model :: string
  azure_openai_api_key :: "string option"
  azure_openai_endpoint :: "string option"
  azure_openai_deployment_name :: "string option"
  azure_openai_embedding_deployment_name :: "string option"
  azure_openai_api_version :: string

definition default_settings :: settings where
  "default_settings = \<lparr>openai_api_key = None, openai_api_base = None,
     openai_model = ''gpt-4o-2024-08-06'',
     azure_openai_api_key = None, azure_openai_endpoint = None,
     azure_openai_deployment_name = None, azure_openai_embedding_deployment_name = None,
     azure_openai_api_version = ''2024-12-01-preview''\<rparr>"

text \<open>Building \<open>Settings\<close> from a list of key/value pairs: a key that names a field
  sets it, any other key is ignored.\<close>

fun set_field :: "settings \<Rightarrow> string \<times> string \<Rightarrow> settings" where
  "set_field st (k, v) =
     (if k = ''openai_api_key'' then st\<lparr>openai_api_key := Some v\<rparr>
      else if k = ''openai_api_base'' then st\<lparr>openai_api_base := Some v\<rparr>
      else if k = ''openai_model'' then st\<lparr>openai_model := v\<rparr>
      else if k = ''azure_openai_api_key'' then st\<lparr>azure_openai_api_key := Some v\<rparr>
      else if k = ''azure_openai_endpoint'' then st\<lparr>azure_openai_endpoint := Some v\<rparr>
      else if k = ''azure_openai_deployment_name''
        then st\<lparr>azure_openai_deployment_name := Some v\<rparr>
      else if k = ''azure_openai_embedding_deployment_name''
        then st\<lparr>azure_openai_embedding_deployment_name := Some v\<rparr>
      else if k = ''azure_openai_api_version'' then st\<lparr>azure_openai_api_version := v\<rparr>
      else st)"

definition Settings :: "(string \<times> string) list \<Rightarrow> settings" where
  "Settings kvs = foldl set_field default_settings kvs"

text \<open>\<open>HelpDeskAgentPrompts\<close> is not part of the sources at hand: the templates are
  parameters, a template with placeholders is a function of what \<open>format\<close> is given.\<close>

record prompts =
  planner_system_prompt :: string
  planner_user_prompt :: "string \<Rightarrow> string"
  subtask_system_prompt :: string
  subtask_tool_selection_user_prompt :: "string \<Rightarrow> string list \<Rightarrow> string \<Rightarrow> string"
  subtask_retry_answer_user_prompt :: string
  subtask_reflection_user_prompt :: string
  create_last_answer_system_prompt :: string
  create_last_answer_user_prompt :: "string \<Rightarrow> string list \<Rightarrow> (string \<times> string) list \<Rightarrow> string"

text \<open>What \<open>tool.invoke\<close> is handed: Python passes either a \<open>str\<close> or a
  \<open>dict\<close> of named arguments.\<close>

datatype tool_input = JsonText string | ArgsDict "(string \<times> string) list"

text \<open>A tool: its name and what \<open>invoke\<close> does with the argument it is given.\<close>

record tool =
  name :: string
  invoke :: "tool_input \<Rightarrow> error + search_output list"

text \<open>The keyword arguments of a chat completion request. \<open>req_tools\<close> is the list
  of advertised tools (by name), absent in the calls that pass none.\<close>

record request =
  req_model :: string
  req_messages :: "message list"
  req_tools :: "string list option"
  temperature :: int
  seed :: int

text \<open>What the agent reads off \<open>response.choices[0].message\<close>.\<close>

record completion =
  c_content :: string
  c_tool_calls :: "tool_call list option"

text \<open>The provider: \<open>chat.completions.create\<close>, and \<open>beta.chat.completions.parse\<close>
  with response format \<open>Plan\<close> and \<open>ReflectionResult\<close>. A call raises or returns;
  \<open>parsed\<close> may be \<open>None\<close>.\<close>

record client =
  create :: "request \<Rightarrow> error + completion"
  parse_plan :: "request \<Rightarrow> error + string list option"
  parse_reflection :: "request \<Rightarrow> error + reflection_result option"

text \<open>\<open>self\<close>: the attributes set by \<open>__init__\<close>. \<open>str_results\<close> is Python's
  \<open>str\<close> on a list of \<open>SearchOutput\<close> and \<open>model_dump_json\<close> the serialisation
  of a \<open>ReflectionResult\<close>, both outside the sources at hand and taken as given.\<close>

record agent =
  agent_settings :: settings
  tools :: "tool list"
  agent_prompts :: prompts
  agent_client :: client
  str_results :: "search_output list \<Rightarrow> string"
  model_dump_json :: "reflection_result \<Rightarrow> string"

text \<open>\<open>self.tool_map = {tool.name: tool for tool in tools}\<close>: of two tools with one
  name the later one stays.\<close>

definition tool_map :: "agent \<Rightarrow> string \<Rightarrow> tool option" where
  "tool_map self = map_of (rev (map (\<lambda>t. (name t, t)) (tools self)))"

definition MAX_CHALLENGE_COUNT :: int where
  "MAX_CHALLENGE_COUNT = 3"

definition bind_e :: "error + 'a \<Rightarrow> ('a \<Rightarrow> error + 'b) \<Rightarrow> error + 'b" where
  "bind_e m f = (case m of Inl e \<Rightarrow> Inl e | Inr x \<Rightarrow> f x)"

section \<open>The nodes of the sub-graph\<close>

definition system_message :: "string \<Rightarrow> message" where
  "system_message c = \<lparr>role = ''system'', content = Val c, tool_calls = Absent,
     tool_call_id = Absent\<rparr>"

definition user_message :: "string \<Rightarrow> message" where
  "user_message c = \<lparr>role = ''user'', content = Val c, tool_calls = Absent,
     tool_call_id = Absent\<rparr>"

definition assistant_message :: "string \<Rightarrow> message" where
  "assistant_message c = \<lparr>role = ''assistant'', content = Val c, tool_calls = Absent,
     tool_call_id = Absent\<rparr>"

definition tool_calls_message :: "tool_call list \<Rightarrow> message" where
  "tool_calls_message tcs = \<lparr>role = ''assistant'', content = Absent, tool_calls = Val tcs,
     tool_call_id = Absent\<rparr>"

definition tool_message :: "string \<Rightarrow> string \<Rightarrow> message" where
  "tool_message c i = \<lparr>role = ''tool'', content = Val c, tool_calls = Absent,
     tool_call_id = Val i\<rparr>"

text \<open>The filter of the retry branch of \<open>select_tools\<close>:
  \<^verbatim>\<open>[message for message in messages
      if message["role"] != "tool" or "tool_calls" not in message]\<close>\<close>

definition keep_on_retry :: "message \<Rightarrow> bool" where
  "keep_on_retry m \<longleftrightarrow> role m \<noteq> ''tool'' \<or> tool_calls m = Absent"

definition prune :: "message list \<Rightarrow> message list" where
  "prune ms = filter keep_on_retry ms"

definition select_messages :: "agent \<Rightarrow> sub_state \<Rightarrow> message list" where
  "select_messages self s =
     (if challenge_count s = 0 then
        [system_message (subtask_system_prompt (agent_prompts self)),
         user_message (subtask_tool_selection_user_prompt (agent_prompts self)
                         (question s) (plan s) (subtask s))]
      else prune (messages s)
             @ [user_message (subtask_retry_answer_user_prompt (agent_prompts self))])"

definition select_request :: "agent \<Rightarrow> sub_state \<Rightarrow> request" where
  "select_request self s = \<lparr>req_model = openai_model (agent_settings self),
     req_messages = select_messages self s,
     req_tools = Some (map name (tools self)),
     temperature = 0, seed = 0\<rparr>"

definition select_tools :: "agent \<Rightarrow> sub_state \<Rightarrow> error + sub_update" where
  "select_tools self s =
     bind_e (create (agent_client self) (select_request self s)) (\<lambda>response.
       case c_tool_calls response of
         None \<Rightarrow> Inl ToolCallsIsNone
       | Some tcs \<Rightarrow>
           Inr (no_update\<lparr>u_messages :=
                  Some (select_messages self s @ [tool_calls_message tcs])\<rparr>))"

text \<open>The body of the loop of \<open>execute_tools\<close> up to the handler's return:
  \<open>tool = self.tool_map[tool_name]\<close>, then \<open>tool.invoke(tool_args)\<close> with
  \<open>tool_args = tool_call["function"]["arguments"]\<close>.\<close>

definition invoke_call :: "agent \<Rightarrow> tool_call \<Rightarrow> error + search_output list" where
  "invoke_call self tc =
     (case tool_map self (function_name tc) of
        None \<Rightarrow> Inl (KeyError (function_name tc))
      | Some t \<Rightarrow> invoke t (JsonText (function_arguments tc)))"

text \<open>The loop of \<open>execute_tools\<close> over the tool calls. \<open>messages\<close> is the list
  object of the state and \<open>messages.append\<close> changes it in place, so the function
  returns the contents of that list together with the outcome: when a call raises, the
  list holds what was appended before.\<close>

fun execute_calls ::
  "agent \<Rightarrow> tool_call list \<Rightarrow> message list \<Rightarrow> tool_result list
     \<Rightarrow> message list \<times> (error + tool_result list)" where
  "execute_calls self [] ms acc = (ms, Inr acc)"
| "execute_calls self (tc # tcs) ms acc =
     (case invoke_call self tc of
        Inl e \<Rightarrow> (ms, Inl e)
      | Inr tool_result \<Rightarrow>
          execute_calls self tcs
            (ms @ [tool_message (str_results self tool_result) (call_id tc)])
            (acc @ [\<lparr>tool_name = function_name tc, args = function_arguments tc,
                     results = tool_result\<rparr>]))"

definition execute_tools_store ::
  "agent \<Rightarrow> sub_state \<Rightarrow> message list \<times> (error + sub_update)" where
  "execute_tools_store self s =
     (if messages s = [] then ([], Inl IndexError)
      else case tool_calls (last (messages s)) of
        Absent \<Rightarrow> (messages s, Inl (KeyError ''tool_calls''))
      | Null \<Rightarrow> (messages s, Inl ToolCallsIsNone)
      | Val tcs \<Rightarrow>
          (case execute_calls self tcs (messages s) [] of
             (ms, Inl e) \<Rightarrow> (ms, Inl e)
           | (ms, Inr trs) \<Rightarrow>
               (ms, Inr (no_update\<lparr>u_messages := Some ms, u_tool_results := Some [trs]\<rparr>))))"

definition execute_tools :: "agent \<Rightarrow> sub_state \<Rightarrow> error + sub_update" where
  "execute_tools self s = snd (execute_tools_store self s)"

definition answer_request :: "agent \<Rightarrow> message list \<Rightarrow> request" where
  "answer_request self ms = \<lparr>req_model = openai_model (agent_settings self),
     req_messages = ms, req_tools = None, temperature = 0, seed = 0\<rparr>"

definition create_subtask_answer :: "agent \<Rightarrow> sub_state \<Rightarrow> error + sub_update" where
  "create_subtask_answer self s =
     bind_e (create (agent_client self) (answer_request self (messages s))) (\<lambda>response.
       Inr (no_update\<lparr>
         u_messages := Some (messages s @ [assistant_message (c_content response)]),
         u_subtask_answer := Some (c_content response)\<rparr>))"

text \<open>The text that follows the sub-task in the answer written when the budget is
  used up, \<^verbatim>\<open>f"{state['subtask']}...<15 Japanese characters>"\<close>, as UTF-8.\<close>

definition not_found_suffix :: string where
  "not_found_suffix =
     [CHR 0xE3, CHR 0x81, CHR 0xAE, CHR 0xE5, CHR 0x9B, CHR 0x9E, CHR 0xE7, CHR 0xAD, CHR 0x94,
      CHR 0xE3, CHR 0x81, CHR 0x8C, CHR 0xE8, CHR 0xA6, CHR 0x8B, CHR 0xE3, CHR 0x81, CHR 0xA4,
      CHR 0xE3, CHR 0x81, CHR 0x8B, CHR 0xE3, CHR 0x82, CHR 0x8A, CHR 0xE3, CHR 0x81, CHR 0xBE,
      CHR 0xE3, CHR 0x81, CHR 0x9B, CHR 0xE3, CHR 0x82, CHR 0x93, CHR 0xE3, CHR 0x81, CHR 0xA7,
      CHR 0xE3, CHR 0x81, CHR 0x97, CHR 0xE3, CHR 0x81, CHR 0x9F, CHR 0xE3, CHR 0x80, CHR 0x82]"

definition reflect_messages :: "agent \<Rightarrow> sub_state \<Rightarrow> message list" where
  "reflect_messages self s =
     messages s @ [user_message (subtask_reflection_user_prompt (agent_prompts self))]"

definition reflect_request :: "agent \<Rightarrow> sub_state \<Rightarrow> request" where
  "reflect_request self s = \<lparr>req_model = openai_model (agent_settings self),
     req_messages = reflect_messages self s, req_tools = None, temperature = 0, seed = 0\<rparr>"

definition reflect_subtask :: "agent \<Rightarrow> sub_state \<Rightarrow> error + sub_update" where
  "reflect_subtask self s =
     bind_e (parse_reflection (agent_client self) (reflect_request self s)) (\<lambda>parsed.
       case parsed of
         None \<Rightarrow> Inl ReflectionIsNone
       | Some reflection \<Rightarrow>
           (let update_state = no_update\<lparr>
                  u_messages := Some (reflect_messages self s
                                  @ [assistant_message (model_dump_json self reflection)]),
                  u_reflection_results := Some [reflection],
                  u_challenge_count := Some (challenge_count s + 1),
                  u_is_completed := Some (r_is_completed reflection)\<rparr>
            in if challenge_count s + 1 \<ge> MAX_CHALLENGE_COUNT \<and> \<not> r_is_completed reflection
               then Inr (update_state\<lparr>u_subtask_answer := Some (subtask s @ not_found_suffix)\<rparr>)
               else Inr update_state))"

datatype route = End | Continue

definition should_continue_exec_subtask_flow :: "agent \<Rightarrow> sub_state \<Rightarrow> route" where
  "should_continue_exec_subtask_flow self s =
     (if is_completed s \<or> challenge_count s \<ge> MAX_CHALLENGE_COUNT then End else Continue)"

section \<open>The sub-graph\<close>

text \<open>A node runs on the state and its dict is merged into the state.\<close>

definition run_node ::
  "(sub_state \<Rightarrow> error + sub_update) \<Rightarrow> sub_state \<Rightarrow> error + sub_state" where
  "run_node node s = bind_e (node s) (\<lambda>u. Inr (merge_sub s u))"

text \<open>One pass along the fixed edges
  \<open>select_tools \<rightarrow> execute_tools \<rightarrow> create_subtask_answer \<rightarrow> reflect_subtask\<close>.\<close>

definition subgraph_round :: "agent \<Rightarrow> sub_state \<Rightarrow> error + sub_state" where
  "subgraph_round self s =
     bind_e (run_node (select_tools self) s) (\<lambda>s1.
     bind_e (run_node (execute_tools self) s1) (\<lambda>s2.
     bind_e (run_node (create_subtask_answer self) s2) (\<lambda>s3.
     run_node (reflect_subtask self) s3)))"

text \<open>What the nodes write, as far as the loop depends on it.\<close>

lemma merge_sub_simps:
  "question (merge_sub s u) = question s"
  "plan (merge_sub s u) = plan s"
  "subtask (merge_sub s u) = subtask s"
  "messages (merge_sub s u) = (case u_messages u of None \<Rightarrow> messages s | Some m \<Rightarrow> m)"
  "tool_results (merge_sub s u) =
     (case u_tool_results u of None \<Rightarrow> tool_results s | Some t \<Rightarrow> tool_results s @ t)"
  "reflection_results (merge_sub s u) =
     (case u_reflection_results u of None \<Rightarrow> reflection_results s
      | Some r \<Rightarrow> reflection_results s @ r)"
  "challenge_count (merge_sub s u) =
     (case u_challenge_count u of None \<Rightarrow> challenge_count s | Some c \<Rightarrow> c)"
  "is_completed (merge_sub s u) =
     (case u_is_completed u of None \<Rightarrow> is_completed s | Some b \<Rightarrow> b)"
  "subtask_answer (merge_sub s u) =
     (case u_subtask_answer u of None \<Rightarrow> subtask_answer s | Some a \<Rightarrow> a)"
  by (simp_all add: merge_sub_def)

lemma bind_e_Inr_iff: "bind_e m f = Inr y \<longleftrightarrow> (\<exists>x. m = Inr x \<and> f x = Inr y)"
  by (cases m) (simp_all add: bind_e_def)

lemma bind_e_simps [simp]: "bind_e (Inl e) f = Inl e" "bind_e (Inr x) f = f x"
  by (simp_all add: bind_e_def)

lemma run_node_Inr_iff:
  "run_node node s = Inr s' \<longleftrightarrow> (\<exists>u. node s = Inr u \<and> s' = merge_sub s u)"
  by (auto simp: run_node_def bind_e_Inr_iff)

lemma select_tools_Inr:
  "select_tools self s = Inr u \<Longrightarrow>
     \<exists>tcs. u = no_update\<lparr>u_messages := Some (select_messages self s @ [tool_calls_message tcs])\<rparr>"
  by (auto simp: select_tools_def bind_e_Inr_iff split: option.splits)

lemma execute_tools_Inr:
  "execute_tools self s = Inr u \<Longrightarrow>
     \<exists>ms trs. u = no_update\<lparr>u_messages := Some ms, u_tool_results := Some [trs]\<rparr>"
  by (auto simp: execute_tools_def execute_tools_store_def
      split: if_splits field.splits prod.splits sum.splits)

lemma create_subtask_answer_Inr:
  "create_subtask_answer self s = Inr u \<Longrightarrow>
     \<exists>a. u = no_update\<lparr>u_messages := Some (messages s @ [assistant_message a]),
                        u_subtask_answer := Some a\<rparr>"
  by (auto simp: create_subtask_answer_def bind_e_Inr_iff)

lemma reflect_subtask_Inr:
  "reflect_subtask self s = Inr u \<Longrightarrow>
     \<exists>r. parse_reflection (agent_client self) (reflect_request self s) = Inr (Some r) \<and>
       u_reflection_results u = Some [r] \<and>
       u_tool_results u = None \<and>
       u_challenge_count u = Some (challenge_count s + 1) \<and>
       u_is_completed u = Some (r_is_completed r) \<and>
       u_messages u =
         Some (reflect_messages self s @ [assistant_message (model_dump_json self r)]) \<and>
       u_subtask_answer u =
         (if challenge_count s + 1 \<ge> MAX_CHALLENGE_COUNT \<and> \<not> r_is_completed r
          then Some (subtask s @ not_found_suffix) else None)"
proof -
  assume a: "reflect_subtask self s = Inr u"
  then obtain r where
    p: "parse_reflection (agent_client self) (reflect_request self s) = Inr (Some r)"
    by (auto simp: reflect_subtask_def bind_e_Inr_iff split: option.splits)
  show ?thesis
  proof (cases "challenge_count s + 1 \<ge> MAX_CHALLENGE_COUNT \<and> \<not> r_is_completed r")
    case True
    with a p show ?thesis
      by (intro exI[of _ r]) (auto simp add: reflect_subtask_def no_update_def Let_def)
  next
    case False
    with a p show ?thesis
      by (intro exI[of _ r]) (auto simp add: reflect_subtask_def no_update_def Let_def)
  qed
qed

lemma subgraph_round_nodes:
  assumes "subgraph_round self s = Inr s'"
  obtains u1 u2 u3 u4 where
    "select_tools self s = Inr u1"
    "execute_tools self (merge_sub s u1) = Inr u2"
    "create_subtask_answer self (merge_sub (merge_sub s u1) u2) = Inr u3"
    "reflect_subtask self (merge_sub (merge_sub (merge_sub s u1) u2) u3) = Inr u4"
    "s' = merge_sub (merge_sub (merge_sub (merge_sub s u1) u2) u3) u4"
  using assms unfolding subgraph_round_def bind_e_Inr_iff run_node_Inr_iff by blast

lemma subgraph_round_Inr:
  assumes "subgraph_round self s = Inr s'"
  shows "challenge_count s' = challenge_count s + 1
    \<and> length (tool_results s') = length (tool_results s) + 1
    \<and> length (reflection_results s') = length (reflection_results s) + 1
    \<and> subtask s' = subtask s \<and> question s' = question s \<and> plan s' = plan s"
proof -
  from assms obtain u1 u2 u3 u4 where
    1: "select_tools self s = Inr u1" and
    2: "execute_tools self (merge_sub s u1) = Inr u2" and
    3: "create_subtask_answer self (merge_sub (merge_sub s u1) u2) = Inr u3" and
    4: "reflect_subtask self (merge_sub (merge_sub (merge_sub s u1) u2) u3) = Inr u4" and
    5: "s' = merge_sub (merge_sub (merge_sub (merge_sub s u1) u2) u3) u4"
    by (rule subgraph_round_nodes)
  from select_tools_Inr[OF 1] obtain tcs where
    a: "u1 = no_update\<lparr>u_messages := Some (select_messages self s @ [tool_calls_message tcs])\<rparr>"
    by blast
  from execute_tools_Inr[OF 2] obtain ms trs where
    b: "u2 = no_update\<lparr>u_messages := Some ms, u_tool_results := Some [trs]\<rparr>"
    by blast
  from create_subtask_answer_Inr[OF 3] obtain ans ms3 where
    c: "u3 = no_update\<lparr>u_messages := Some ms3, u_subtask_answer := Some ans\<rparr>"
    by blast
  from reflect_subtask_Inr[OF 4] obtain r where
    d: "u_reflection_results u4 = Some [r]" "u_tool_results u4 = None"
       "u_challenge_count u4 =
          Some (challenge_count (merge_sub (merge_sub (merge_sub s u1) u2) u3) + 1)"
    by blast
  show ?thesis
    unfolding 5 by (simp add: merge_sub_simps d) (simp add: merge_sub_simps a b c no_update_def)
qed

text \<open>\<open>subgraph.invoke\<close>: the compiled sub-graph enters at \<open>select_tools\<close>, follows the
  four fixed edges and then the conditional edge out of \<open>reflect_subtask\<close>:
  \<open>"continue"\<close> leads back to \<open>select_tools\<close>, \<open>"end"\<close> leaves the sub-graph.\<close>

function subgraph_invoke :: "agent \<Rightarrow> sub_state \<Rightarrow> error + sub_state" where
  "subgraph_invoke self s =
     (case subgraph_round self s of
        Inl e \<Rightarrow> Inl e
      | Inr s' \<Rightarrow>
          (case should_continue_exec_subtask_flow self s' of
             End \<Rightarrow> Inr s'
           | Continue \<Rightarrow> subgraph_invoke self s'))"
  by pat_completeness auto
termination
proof (relation "measure (\<lambda>(self, s). nat (MAX_CHALLENGE_COUNT - challenge_count s))")
  show "wf (measure (\<lambda>(self, s). nat (MAX_CHALLENGE_COUNT - challenge_count s)))"
    by simp
next
  fix self s s'
  assume r: "subgraph_round self s = Inr s'"
    and c: "should_continue_exec_subtask_flow self s' = Continue"
  from subgraph_round_Inr[OF r] have "challenge_count s' = challenge_count s + 1"
    by simp
  moreover from c have "challenge_count s' < MAX_CHALLENGE_COUNT"
    by (simp add: should_continue_exec_subtask_flow_def split: if_splits)
  ultimately show "((self, s'), (self, s))
      \<in> measure (\<lambda>(self, s). nat (MAX_CHALLENGE_COUNT - challenge_count s))"
    by simp
qed

declare subgraph_invoke.simps [simp del]

text \<open>The state after \<open>n\<close> passes through the four nodes, whatever the conditional
  edge says: the points at which \<open>reflect_subtask\<close> has just fired.\<close>

fun rounds :: "agent \<Rightarrow> nat \<Rightarrow> sub_state \<Rightarrow> error + sub_state" where
  "rounds self 0 s = Inr s"
| "rounds self (Suc n) s = bind_e (subgraph_round self s) (rounds self n)"

section \<open>The main graph\<close>

text \<open>\<open>AgentState\<close>; \<open>subtask_results\<close> is annotated with \<open>operator.add\<close>.\<close>

record agent_state =
  m_question :: string
  m_plan :: "string list"
  current_step :: nat
  subtask_results :: "subtask_rec list"
  last_answer :: string

definition plan_request :: "agent \<Rightarrow> agent_state \<Rightarrow> request" where
  "plan_request self state = \<lparr>req_model = openai_model (agent_settings self),
     req_messages =
       [system_message (planner_system_prompt (agent_prompts self)),
        user_message (planner_user_prompt (agent_prompts self) (m_question state))],
     req_tools = None, temperature = 0, seed = 0\<rparr>"

definition create_plan :: "agent \<Rightarrow> agent_state \<Rightarrow> error + string list" where
  "create_plan self state =
     bind_e (parse_plan (agent_client self) (plan_request self state)) (\<lambda>parsed.
       case parsed of None \<Rightarrow> Inl PlanIsNone | Some p \<Rightarrow> Inr p)"

text \<open>\<open>_should_continue_exec_subtasks\<close>: one \<open>Send("execute_subtasks", ...)\<close> for
  each index of \<open>enumerate(state["plan"])\<close>, carrying the question, the plan and the
  index.\<close>

datatype send = Send string agent_state

definition should_continue_exec_subtasks :: "agent \<Rightarrow> agent_state \<Rightarrow> send list" where
  "should_continue_exec_subtasks self state =
     map (\<lambda>idx. Send ''execute_subtasks''
            \<lparr>m_question = m_question state, m_plan = m_plan state, current_step = idx,
             subtask_results = [], last_answer = []\<rparr>)
         [0..<length (m_plan state)]"

definition initial_sub_state :: "agent_state \<Rightarrow> sub_state" where
  "initial_sub_state state = \<lparr>question = m_question state, plan = m_plan state,
     subtask = m_plan state ! current_step state, is_completed = False, messages = [],
     challenge_count = 0, tool_results = [], reflection_results = [], subtask_answer = []\<rparr>"

text \<open>\<open>_execute_subgraph\<close>; \<open>state["plan"][state["current_step"]]\<close> raises when the
  index is out of range.\<close>

definition execute_subgraph :: "agent \<Rightarrow> agent_state \<Rightarrow> error + subtask_rec list" where
  "execute_subgraph self state =
     (if current_step state < length (m_plan state) then
        bind_e (subgraph_invoke self (initial_sub_state state)) (\<lambda>result.
          Inr [\<lparr>task_name = subtask result,
                t_tool_results = tool_results result,
                t_reflection_results = reflection_results result,
                t_is_completed = is_completed result,
                t_subtask_answer = subtask_answer result,
                t_challenge_count = challenge_count result\<rparr>])
      else Inl IndexError)"

definition last_answer_request :: "agent \<Rightarrow> agent_state \<Rightarrow> request" where
  "last_answer_request self state = \<lparr>req_model = openai_model (agent_settings self),
     req_messages =
       [system_message (create_last_answer_system_prompt (agent_prompts self)),
        user_message (create_last_answer_user_prompt (agent_prompts self)
          (m_question state) (m_plan state)
          (map (\<lambda>result. (task_name result, t_subtask_answer result))
               (subtask_results state)))],
     req_tools = None, temperature = 0, seed = 0\<rparr>"

definition create_answer :: "agent \<Rightarrow> agent_state \<Rightarrow> error + string" where
  "create_answer self state =
     bind_e (create (agent_client self) (last_answer_request self state)) (\<lambda>response.
       Inr (c_content response))"

subsection \<open>The graph engine\<close>

text \<open>
  Modelled from the spec: the graph engine that runs the compiled main graph (the graph
  library behind \<open>StateGraph\<close>, \<open>Send\<close> and \<open>compile\<close>) is not part of the sources.
  The spec has it launch one child per element of the fan-out, each child running its
  node to completion, buffer the children's contributions to an append field and apply
  them in fan-out-index order at the join, whatever the order of completion; a failing
  node aborts the run.

  The order in which the children complete is an input of the model: a schedule gives,
  for \<open>n\<close> children, the indices in the order of their completion.
\<close>

type_synonym schedule = "nat \<Rightarrow> nat list"

definition valid_schedule :: "schedule \<Rightarrow> bool" where
  "valid_schedule sch \<longleftrightarrow> (\<forall>n. distinct (sch n) \<and> set (sch n) = {0..<n})"

fun send_state :: "send \<Rightarrow> agent_state" where
  "send_state (Send node state) = state"

text \<open>Modelled from the spec: the children run to completion in the order of the
  schedule; the first failure aborts the run.\<close>

fun run_children ::
  "agent \<Rightarrow> send list \<Rightarrow> nat list \<Rightarrow> error + (nat \<times> subtask_rec list) list" where
  "run_children self sends [] = Inr []"
| "run_children self sends (i # order) =
     bind_e (execute_subgraph self (send_state (sends ! i))) (\<lambda>c.
     bind_e (run_children self sends order) (\<lambda>cs. Inr ((i, c) # cs)))"

text \<open>Modelled from the spec: the join applies the buffered contributions in
  fan-out-index order.\<close>

definition join_contributions :: "(nat \<times> 'a list) list \<Rightarrow> 'a list" where
  "join_contributions cs = concat (map snd (sort_key fst cs))"

text \<open>Modelled from the spec: \<open>create_plan\<close>, the fan-out over the plan, the join
  into \<open>subtask_results\<close> (an \<open>operator.add\<close> field, empty at the start), then
  \<open>create_answer\<close>. \<open>run_agent\<close> starts the graph with the question and
  \<open>current_step = 0\<close>.\<close>

definition invoke_graph :: "agent \<Rightarrow> schedule \<Rightarrow> string \<Rightarrow> error + agent_state" where
  "invoke_graph self sch q =
     (let state0 = \<lparr>m_question = q, m_plan = [], current_step = 0, subtask_results = [],
                     last_answer = []\<rparr>
      in bind_e (create_plan self state0) (\<lambda>p.
           let state1 = state0\<lparr>m_plan := p\<rparr>;
               sends = should_continue_exec_subtasks self state1
           in bind_e (run_children self sends (sch (length sends))) (\<lambda>cs.
                let state2 = state1\<lparr>subtask_results :=
                               subtask_results state1 @ join_contributions cs\<rparr>
                in bind_e (create_answer self state2) (\<lambda>a.
                     Inr (state2\<lparr>last_answer := a\<rparr>)))))"

text \<open>\<open>run_agent\<close>: the result of the graph packed into an \<open>AgentResult\<close>.\<close>

definition run_agent :: "agent \<Rightarrow> schedule \<Rightarrow> string \<Rightarrow> error + agent_result" where
  "run_agent self sch q =
     bind_e (invoke_graph self sch q) (\<lambda>result.
       Inr \<lparr>res_question = q, res_plan = m_plan result,
            subtasks = subtask_results result, answer = last_answer result\<rparr>)"


subsection \<open>Requests with pinned sampling parameters\<close>

definition pinned :: "request \<Rightarrow> bool" where
  "pinned r \<longleftrightarrow> temperature r = 0 \<and> seed r = 0"

text \<open>Two providers that answer every pinned request alike.\<close>

definition agree_on_pinned :: "client \<Rightarrow> client \<Rightarrow> bool" where
  "agree_on_pinned c c' \<longleftrightarrow>
     (\<forall>r. pinned r \<longrightarrow> create c r = create c' r \<and> parse_plan c r = parse_plan c' r
            \<and> parse_reflection c r = parse_reflection c' r)"

section \<open>Stub collaborators for concrete runs\<close>

definition stub_prompts :: prompts where
  \<open>stub_prompts = \<lparr>planner_system_prompt = ''plan'',
     planner_user_prompt = (\<lambda>q. q),
     subtask_system_prompt = ''solve'',
     subtask_tool_selection_user_prompt = (\<lambda>q p t. t),
     subtask_retry_answer_user_prompt = ''retry'',
     subtask_reflection_user_prompt = ''reflect'',
     create_last_answer_system_prompt = ''summarise'',
     create_last_answer_user_prompt = (\<lambda>q p rs. concat (map snd rs))\<rparr>\<close>

text \<open>A tool that reports what it was handed.\<close>

definition probe_tool :: tool where
  \<open>probe_tool = \<lparr>name = ''search'',
     invoke = (\<lambda>i. case i of
        JsonText t \<Rightarrow> Inr [SearchOutput ''str'' t]
      | ArgsDict d \<Rightarrow> Inr [SearchOutput ''dict'' (concat (map snd d))])\<rparr>\<close>

definition stub_call :: tool_call where
  \<open>stub_call = \<lparr>call_id = ''call_1'', function_name = ''search'',
     function_arguments = ''{"keywords": "ERR-404"}''\<rparr>\<close>

text \<open>A call of a tool that is not registered.\<close>

definition unknown_call :: tool_call where
  "unknown_call = \<lparr>call_id = ''call_2'', function_name = ''lookup'',
     function_arguments = ''{}''\<rparr>"

text \<open>A provider that plans two sub-tasks, always selects \<open>stub_call\<close>, always answers
  \<open>found\<close>, and reflects with the verdict it is built with.\<close>

definition stub_client :: "bool \<Rightarrow> client" where
  \<open>stub_client verdict = \<lparr>
     create = (\<lambda>req. Inr \<lparr>c_content = ''found'', c_tool_calls = Some [stub_call]\<rparr>),
     parse_plan = (\<lambda>req. Inr (Some [''A'', ''B''])),
     parse_reflection = (\<lambda>req. Inr (Some \<lparr>r_is_completed = verdict, r_advice = []\<rparr>))\<rparr>\<close>

fun str_output :: "search_output \<Rightarrow> string" where
  "str_output (SearchOutput f c) = c"

definition stub_agent :: "settings \<Rightarrow> bool \<Rightarrow> agent" where
  \<open>stub_agent st verdict = \<lparr>agent_settings = st, tools = [probe_tool],
     agent_prompts = stub_prompts, agent_client = stub_client verdict,
     str_results = (\<lambda>rs. concat (map str_output rs)),
     model_dump_json = (\<lambda>r. if r_is_completed r then ''true'' else ''false'')\<rparr>\<close>

definition stub_state :: agent_state where
  \<open>stub_state = \<lparr>m_question = ''Q'', m_plan = [''A'', ''B''], current_step = 0,
     subtask_results = [], last_answer = []\<rparr>\<close>

text \<open>The sub-task \<open>A\<close> run by the stub whose reflector never accepts.\<close>

definition stub_run :: "settings \<Rightarrow> error + sub_state" where
  "stub_run st = subgraph_invoke (stub_agent st False) (initial_sub_state stub_state)"

text \<open>The schedule in which the children complete in reverse.\<close>

definition reverse_schedule :: schedule where
  "reverse_schedule n = rev [0..<n]"


text \<open>A provider that answers a pinned request as the accepting stub does and fails on
  any other.\<close>

definition pinned_only_client :: client where
  \<open>pinned_only_client = \<lparr>
     create = (\<lambda>req. if pinned req then create (stub_client True) req else Inl ApiError),
     parse_plan = (\<lambda>req. if pinned req then parse_plan (stub_client True) req
                          else Inl ApiError),
     parse_reflection = (\<lambda>req. if pinned req then parse_reflection (stub_client True) req
                                else Inl ApiError)\<rparr>\<close>

text \<open>The whole run of the accepting stub on the question \<open>Q\<close>.\<close>

definition stub_agent_run :: "schedule \<Rightarrow> error + agent_result" where
  "stub_agent_run sch = run_agent (stub_agent default_settings True) sch ''Q''"

section \<open>Evaluating the stub\<close>

lemmas stub_defs = stub_agent_def stub_client_def stub_call_def probe_tool_def stub_prompts_def
  stub_state_def initial_sub_state_def

lemmas node_defs = subgraph_round_def run_node_def select_tools_def select_messages_def
  select_request_def execute_tools_def execute_tools_store_def invoke_call_def tool_map_def
  create_subtask_answer_def answer_request_def reflect_subtask_def reflect_messages_def
  reflect_request_def merge_sub_def no_update_def prune_def keep_on_retry_def
  tool_calls_message_def tool_message_def assistant_message_def user_message_def
  system_message_def should_continue_exec_subtask_flow_def MAX_CHALLENGE_COUNT_def

lemma stub_run_result:
  "case stub_run st of
     Inl e \<Rightarrow> False
   | Inr s' \<Rightarrow> challenge_count s' = 3 \<and> \<not> is_completed s' \<and> subtask s' = ''A''
       \<and> subtask_answer s' = ''A'' @ not_found_suffix
       \<and> length (tool_results s') = 3 \<and> length (reflection_results s') = 3"
  by (simp add: stub_run_def subgraph_invoke.simps stub_defs node_defs Let_def)

lemma stub_run_fields:
  "\<not> isl (stub_run st)"
  "challenge_count (projr (stub_run st)) = 3"
  "\<not> is_completed (projr (stub_run st))"
  "subtask (projr (stub_run st)) = ''A''"
  "subtask_answer (projr (stub_run st)) = ''A'' @ not_found_suffix"
  using stub_run_result[of st] by (cases "stub_run st"; simp)+

section \<open>The sub-task loop\<close>

lemma rounds_counts:
  "rounds self n s0 = Inr s \<Longrightarrow>
     challenge_count s = challenge_count s0 + int n
     \<and> length (tool_results s) = length (tool_results s0) + n
     \<and> length (reflection_results s) = length (reflection_results s0) + n
     \<and> subtask s = subtask s0"
proof (induction n arbitrary: s0)
  case 0 then show ?case by simp
next
  case (Suc n)
  from Suc.prems obtain s1 where r: "subgraph_round self s0 = Inr s1"
    and rest: "rounds self n s1 = Inr s"
    by (auto simp: bind_e_Inr_iff)
  from subgraph_round_Inr[OF r] Suc.IH[OF rest] show ?case by simp
qed

lemma rounds_Suc_last:
  "rounds self (Suc n) s = Inr s' \<Longrightarrow>
     \<exists>sn. rounds self n s = Inr sn \<and> subgraph_round self sn = Inr s'"
proof (induction n arbitrary: s)
  case 0
  then show ?case by (cases "subgraph_round self s") simp_all
next
  case (Suc n)
  from Suc.prems obtain s1 where r: "subgraph_round self s = Inr s1"
    and rest: "rounds self (Suc n) s1 = Inr s'"
    by (auto simp: bind_e_Inr_iff)
  from Suc.IH[OF rest] r show ?case by simp
qed

text \<open>A run of the sub-graph that returns a state has made \<open>n \<ge> 1\<close> passes; the
  conditional edge said \<open>"end"\<close> after the last and \<open>"continue"\<close> after each one before.\<close>

lemma subgraph_invoke_rounds:
  "subgraph_invoke self s = Inr s' \<Longrightarrow>
     \<exists>n\<ge>1. rounds self n s = Inr s'
        \<and> should_continue_exec_subtask_flow self s' = End
        \<and> (\<forall>k. 1 \<le> k \<and> k < n \<longrightarrow>
              (\<exists>sk. rounds self k s = Inr sk
                 \<and> should_continue_exec_subtask_flow self sk = Continue))"
proof (induction self s rule: subgraph_invoke.induct)
  case (1 self s)
  from "1.prems" obtain s1 where r: "subgraph_round self s = Inr s1"
    by (auto simp: subgraph_invoke.simps[of self s] split: sum.splits)
  show ?case
  proof (cases "should_continue_exec_subtask_flow self s1")
    case End
    with r "1.prems" have "s' = s1" by (simp add: subgraph_invoke.simps[of self s])
    with r End show ?thesis by (intro exI[of _ 1]) simp
  next
    case Continue
    with r "1.prems" have "subgraph_invoke self s1 = Inr s'"
      by (simp add: subgraph_invoke.simps[of self s])
    from "1.IH"[OF r Continue this] obtain n where n: "n \<ge> 1" "rounds self n s1 = Inr s'"
      "should_continue_exec_subtask_flow self s' = End"
      "\<forall>k. 1 \<le> k \<and> k < n \<longrightarrow> (\<exists>sk. rounds self k s1 = Inr sk
                 \<and> should_continue_exec_subtask_flow self sk = Continue)"
      by blast
    have "\<exists>sk. rounds self k s = Inr sk \<and> should_continue_exec_subtask_flow self sk = Continue"
      if k: "1 \<le> k" "k < Suc n" for k
    proof (cases k)
      case 0 with k show ?thesis by simp
    next
      case (Suc j)
      show ?thesis
      proof (cases j)
        case 0
        with Suc r Continue show ?thesis by simp
      next
        case (Suc i)
        with \<open>k = Suc j\<close> k have "1 \<le> j \<and> j < n" by simp
        with n(4) obtain sk where "rounds self j s1 = Inr sk"
          "should_continue_exec_subtask_flow self sk = Continue" by blast
        with \<open>k = Suc j\<close> r show ?thesis by simp
      qed
    qed
    with n r show ?thesis by (intro exI[of _ "Suc n"]) simp
  qed
qed

lemma continue_bounds_rounds:
  assumes "challenge_count s = 0"
    and "\<forall>k. 1 \<le> k \<and> k < n \<longrightarrow> (\<exists>sk. rounds self k s = Inr sk
           \<and> should_continue_exec_subtask_flow self sk = Continue)"
  shows "n \<le> 3"
proof (rule ccontr)
  assume "\<not> n \<le> 3"
  then have "1 \<le> (3::nat) \<and> 3 < n" by simp
  with assms(2) obtain sk where sk: "rounds self 3 s = Inr sk"
    "should_continue_exec_subtask_flow self sk = Continue" by blast
  from rounds_counts[OF sk(1)] assms(1) have "challenge_count sk = 3" by simp
  with sk(2) show False
    by (simp add: should_continue_exec_subtask_flow_def MAX_CHALLENGE_COUNT_def)
qed

lemma subgraph_round_answer:
  assumes "subgraph_round self s = Inr s'"
    and "challenge_count s' \<ge> MAX_CHALLENGE_COUNT" and "\<not> is_completed s'"
  shows "subtask_answer s' = subtask s @ not_found_suffix"
proof -
  from assms(1) obtain u1 u2 u3 u4 where
    1: "select_tools self s = Inr u1" and
    2: "execute_tools self (merge_sub s u1) = Inr u2" and
    3: "create_subtask_answer self (merge_sub (merge_sub s u1) u2) = Inr u3" and
    4: "reflect_subtask self (merge_sub (merge_sub (merge_sub s u1) u2) u3) = Inr u4" and
    5: "s' = merge_sub (merge_sub (merge_sub (merge_sub s u1) u2) u3) u4"
    by (rule subgraph_round_nodes)
  let ?s3 = "merge_sub (merge_sub (merge_sub s u1) u2) u3"
  from reflect_subtask_Inr[OF 4] obtain r where
    d0: "parse_reflection (agent_client self) (reflect_request self ?s3) = Inr (Some r) \<and>
       u_reflection_results u4 = Some [r] \<and>
       u_tool_results u4 = None \<and>
       u_challenge_count u4 = Some (challenge_count ?s3 + 1) \<and>
       u_is_completed u4 = Some (r_is_completed r) \<and>
       u_messages u4 =
         Some (reflect_messages self ?s3 @ [assistant_message (model_dump_json self r)]) \<and>
       u_subtask_answer u4 =
         (if challenge_count ?s3 + 1 \<ge> MAX_CHALLENGE_COUNT \<and> \<not> r_is_completed r
          then Some (subtask ?s3 @ not_found_suffix) else None)" ..
  then have
    d: "u_challenge_count u4 = Some (challenge_count ?s3 + 1)"
       "u_is_completed u4 = Some (r_is_completed r)"
       "u_subtask_answer u4 =
          (if challenge_count ?s3 + 1 \<ge> MAX_CHALLENGE_COUNT \<and> \<not> r_is_completed r
           then Some (subtask ?s3 @ not_found_suffix) else None)"
    by blast+
  from assms(2,3) have "challenge_count ?s3 + 1 \<ge> MAX_CHALLENGE_COUNT \<and> \<not> r_is_completed r"
    unfolding 5 by (simp add: merge_sub_simps d(1,2))
  with d(3) have "u_subtask_answer u4 = Some (subtask ?s3 @ not_found_suffix)" by simp
  then show ?thesis unfolding 5 by (simp add: merge_sub_simps)
qed




text \<open>
  C3. A sub-task loop started with \<open>challenge_count = 0\<close> ends: \<open>subgraph_invoke\<close> is a
  total function, its recursion bounded by \<open>MAX_CHALLENGE_COUNT - challenge_count\<close>. It
  either fails in a node or returns the state after \<open>n\<close> passes with \<open>1 \<le> n \<le> 3\<close> and
  \<open>challenge_count = n\<close>; that state has \<open>is_completed\<close> or
  \<open>challenge_count = MAX_CHALLENGE_COUNT = 3\<close>, and after every earlier pass neither held.
  So there is never a fourth pass.
\<close>

theorem subgraph_invoke_terminates_within_budget:
  assumes "challenge_count s = 0"
  shows "(\<exists>e. subgraph_invoke self s = Inl e) \<or>
    (\<exists>s' n. subgraph_invoke self s = Inr s' \<and> rounds self n s = Inr s'
       \<and> 1 \<le> n \<and> n \<le> 3 \<and> challenge_count s' = int n
       \<and> (is_completed s' \<or> challenge_count s' = MAX_CHALLENGE_COUNT)
       \<and> MAX_CHALLENGE_COUNT = 3
       \<and> (\<forall>k. 1 \<le> k \<and> k < n \<longrightarrow>
             (\<exists>sk. rounds self k s = Inr sk \<and> \<not> is_completed sk
                \<and> challenge_count sk < MAX_CHALLENGE_COUNT)))"
proof (cases "subgraph_invoke self s")
  case (Inl e) then show ?thesis by blast
next
  case (Inr s')
  from subgraph_invoke_rounds[OF Inr] obtain n where n: "n \<ge> 1" "rounds self n s = Inr s'"
    "should_continue_exec_subtask_flow self s' = End"
    "\<forall>k. 1 \<le> k \<and> k < n \<longrightarrow> (\<exists>sk. rounds self k s = Inr sk
                 \<and> should_continue_exec_subtask_flow self sk = Continue)"
    by blast
  from rounds_counts[OF n(2)] assms have cc: "challenge_count s' = int n" by simp
  from continue_bounds_rounds[OF assms n(4)] have le: "n \<le> 3" .
  from n(3) cc le have fin: "is_completed s' \<or> challenge_count s' = MAX_CHALLENGE_COUNT"
    by (auto simp: should_continue_exec_subtask_flow_def MAX_CHALLENGE_COUNT_def split: if_splits)
  have mid: "\<exists>sk. rounds self k s = Inr sk \<and> \<not> is_completed sk
                \<and> challenge_count sk < MAX_CHALLENGE_COUNT" if "1 \<le> k \<and> k < n" for k
  proof -
    from n(4) that obtain sk where "rounds self k s = Inr sk"
      "should_continue_exec_subtask_flow self sk = Continue" by blast
    then show ?thesis
      by (auto simp: should_continue_exec_subtask_flow_def split: if_splits)
  qed
  have "MAX_CHALLENGE_COUNT = 3" by (simp add: MAX_CHALLENGE_COUNT_def)
  with Inr n(1,2) cc le fin mid show ?thesis by blast
qed

theorem subgraph_invoke_terminates_within_budget_witness:
  "challenge_count (initial_sub_state stub_state) = 0
   \<and> \<not> isl (stub_run default_settings)
   \<and> challenge_count (projr (stub_run default_settings)) = MAX_CHALLENGE_COUNT
   \<and> rounds (stub_agent default_settings False) 3 (initial_sub_state stub_state)
       = stub_run default_settings"
proof -
  have init: "challenge_count (initial_sub_state stub_state) = 0"
    by (simp add: initial_sub_state_def)
  have run: "stub_run default_settings = Inr (projr (stub_run default_settings))"
    using stub_run_fields(1)[of default_settings] by simp
  from subgraph_invoke_terminates_within_budget[OF init, of "stub_agent default_settings False"]
  obtain s' n where *: "stub_run default_settings = Inr s'"
    "rounds (stub_agent default_settings False) n (initial_sub_state stub_state) = Inr s'"
    "n \<le> 3" "challenge_count s' = int n"
    unfolding stub_run_def[symmetric] using run by auto
  from *(1) stub_run_fields(2)[of default_settings] have "challenge_count s' = 3" by simp
  with *(4) have "n = 3" by simp
  with * init stub_run_fields(1,2)[of default_settings] show ?thesis
    by (simp add: MAX_CHALLENGE_COUNT_def)
qed

text \<open>
  C4, as stated: a sub-task whose loop ends with \<open>is_completed\<close> false has
  \<open>challenge_count = MAX_CHALLENGE_COUNT\<close> and the answer
  \<open>"no answer found for: " + subtask\<close>. The stub's sub-task \<open>A\<close> ends so, and its
  answer is not that text.
\<close>

theorem placeholder_text_counterexample:
  "\<not> isl (stub_run default_settings)
   \<and> \<not> is_completed (projr (stub_run default_settings))
   \<and> subtask_answer (projr (stub_run default_settings))
       \<noteq> ''no answer found for: '' @ subtask (projr (stub_run default_settings))"
  using stub_run_fields[of default_settings] by simp

text \<open>
  C4, amended: a sub-task whose loop, started with \<open>challenge_count = 0\<close>, ends with
  \<open>is_completed\<close> false has \<open>challenge_count = MAX_CHALLENGE_COUNT\<close>, and its answer is
  the sub-task followed by the fixed text \<open>not_found_suffix\<close> (the source's Japanese
  sentence saying that no answer was found).
\<close>

theorem incomplete_subtask_answer:
  assumes "challenge_count s = 0" and "subgraph_invoke self s = Inr s'"
    and "\<not> is_completed s'"
  shows "challenge_count s' = MAX_CHALLENGE_COUNT
    \<and> subtask_answer s' = subtask s @ not_found_suffix"
proof -
  from subgraph_invoke_rounds[OF assms(2)] obtain n where n: "n \<ge> 1"
    "rounds self n s = Inr s'" "should_continue_exec_subtask_flow self s' = End"
    "\<forall>k. 1 \<le> k \<and> k < n \<longrightarrow> (\<exists>sk. rounds self k s = Inr sk
                 \<and> should_continue_exec_subtask_flow self sk = Continue)"
    by blast
  from rounds_counts[OF n(2)] assms(1) have cc: "challenge_count s' = int n" by simp
  from continue_bounds_rounds[OF assms(1) n(4)] have le: "n \<le> 3" .
  from n(3) assms(3) have ge: "challenge_count s' \<ge> MAX_CHALLENGE_COUNT"
    by (simp add: should_continue_exec_subtask_flow_def split: if_splits)
  with cc le have eq: "challenge_count s' = MAX_CHALLENGE_COUNT"
    by (simp add: MAX_CHALLENGE_COUNT_def)
  from n(1) obtain m where m: "n = Suc m" by (cases n) simp_all
  from rounds_Suc_last[OF n(2)[unfolded m]] obtain sm where
    sm: "rounds self m s = Inr sm" "subgraph_round self sm = Inr s'" by blast
  from rounds_counts[OF sm(1)] have "subtask sm = subtask s" by simp
  with subgraph_round_answer[OF sm(2) ge assms(3)] eq show ?thesis by simp
qed

theorem incomplete_subtask_answer_witness:
  "challenge_count (initial_sub_state stub_state) = 0
   \<and> \<not> is_completed (projr (stub_run default_settings))
   \<and> challenge_count (projr (stub_run default_settings)) = MAX_CHALLENGE_COUNT
   \<and> subtask_answer (projr (stub_run default_settings)) = ''A'' @ not_found_suffix"
proof -
  have init: "challenge_count (initial_sub_state stub_state) = 0"
    "subtask (initial_sub_state stub_state) = ''A''"
    by (simp_all add: initial_sub_state_def stub_state_def)
  have run: "subgraph_invoke (stub_agent default_settings False) (initial_sub_state stub_state)
      = Inr (projr (stub_run default_settings))"
    using stub_run_fields(1)[of default_settings] by (simp add: stub_run_def)
  have nc: "\<not> is_completed (projr (stub_run default_settings))"
    by (rule stub_run_fields(3))
  from incomplete_subtask_answer[OF init(1) run nc] init nc show ?thesis by simp
qed

section \<open>Pruning on retry\<close>

text \<open>Every message the agent itself builds passes the filter of the retry branch.\<close>

lemma keep_on_retry_agent_messages [simp]:
  "keep_on_retry (system_message c)" "keep_on_retry (user_message c)"
  "keep_on_retry (assistant_message c)" "keep_on_retry (tool_calls_message tcs)"
  "keep_on_retry (tool_message c i)"
  by (simp_all add: keep_on_retry_def system_message_def user_message_def
      assistant_message_def tool_calls_message_def tool_message_def)

text \<open>
  C1. On a retry the tool selector should send the previous buffer without its
  \<open>role = tool\<close> messages and without its assistant messages that carry \<open>tool_calls\<close>.
  The filter of the source keeps a message when its role is not \<open>tool\<close> or it has no
  \<open>tool_calls\<close> key, which holds of both kinds; on the buffer one pass leaves behind,
  the retry sends all seven messages, the tool call and the tool output included.
\<close>

theorem select_tools_retry_keeps_tool_traffic:
  "select_messages self (s\<lparr>challenge_count := 1, messages :=
       [system_message a, user_message b, tool_calls_message [tc],
        tool_message c (call_id tc), assistant_message d, user_message e,
        assistant_message f]\<rparr>)
   = [system_message a, user_message b, tool_calls_message [tc],
      tool_message c (call_id tc), assistant_message d, user_message e,
      assistant_message f,
      user_message (subtask_retry_answer_user_prompt (agent_prompts self))]
   \<and> role (tool_message c (call_id tc)) = ''tool''
   \<and> tool_calls (tool_calls_message [tc]) = Val [tc]"
  by (simp add: select_messages_def prune_def)
     (simp add: tool_message_def tool_calls_message_def)

section \<open>The tool executor\<close>

text \<open>
  C8. The dispatcher should hand the handler a parsed argument object. \<open>execute_tools\<close>
  hands \<open>tool.invoke\<close> the value of \<open>tool_call["function"]["arguments"]\<close> as it is,
  the JSON text: the probing tool reports a string, and the text is what the
  \<open>ToolResult\<close> records as \<open>args\<close>.
\<close>

theorem execute_tools_passes_json_text:
  \<open>execute_tools (stub_agent default_settings False)
     (s\<lparr>messages := [tool_calls_message [stub_call]]\<rparr>)
   = Inr (no_update\<lparr>
       u_messages := Some [tool_calls_message [stub_call],
                           tool_message ''{"keywords": "ERR-404"}'' ''call_1''],
       u_tool_results := Some [[\<lparr>tool_name = ''search'',
          args = ''{"keywords": "ERR-404"}'',
          results = [SearchOutput ''str'' ''{"keywords": "ERR-404"}'']\<rparr>]]\<rparr>)\<close>
  by (simp add: execute_tools_def execute_tools_store_def invoke_call_def tool_map_def
      stub_agent_def probe_tool_def stub_call_def tool_calls_message_def)

lemma execute_calls_prefix:
  assumes "map (invoke_call self) pre = map Inr rs" and "invoke_call self tc = Inl e"
  shows "execute_calls self (pre @ tc # post) ms acc =
     (ms @ map2 (\<lambda>c r. tool_message (str_results self r) (call_id c)) pre rs, Inl e)"
  using assms
proof (induction pre arbitrary: rs ms acc)
  case Nil
  then show ?case by simp
next
  case (Cons c pre)
  from Cons.prems(1) obtain r rs' where rs: "rs = r # rs'" "invoke_call self c = Inr r"
    "map (invoke_call self) pre = map Inr rs'"
    by (cases rs) auto
  from Cons.IH[OF rs(3) Cons.prems(2)] rs(1,2) show ?case by simp
qed

text \<open>
  C10. \<open>execute_tools\<close> is not atomic on the message buffer. It works through the tool
  calls in order and appends the \<open>role = tool\<close> message of a call, with that call's id,
  as soon as the handler has returned. When the calls \<open>pre\<close> succeed with the results
  \<open>rs\<close> and the next call \<open>tc\<close> raises \<open>e\<close>, as it does when its name is not in
  \<open>tool_map\<close>, the error \<open>e\<close> leaves the node and the list object \<open>messages\<close> of the
  state holds the old buffer followed by the tool messages of \<open>pre\<close>.
\<close>

theorem execute_tools_not_atomic:
  assumes "messages s \<noteq> []"
    and "tool_calls (last (messages s)) = Val (pre @ tc # post)"
    and "map (invoke_call self) pre = map Inr rs"
    and "invoke_call self tc = Inl e"
  shows "execute_tools_store self s =
       (messages s @ map2 (\<lambda>c r. tool_message (str_results self r) (call_id c)) pre rs,
        Inl e)
     \<and> execute_tools self s = Inl e
     \<and> (tool_map self (function_name tc) = None \<longrightarrow> e = KeyError (function_name tc))
     \<and> (\<forall>m \<in> set (map2 (\<lambda>c r. tool_message (str_results self r) (call_id c)) pre rs).
           role m = ''tool'')
     \<and> map tool_call_id (map2 (\<lambda>c r. tool_message (str_results self r) (call_id c)) pre rs)
         = map (\<lambda>c. Val (call_id c)) pre"
proof -
  from assms(4) have key: "tool_map self (function_name tc) = None
      \<longrightarrow> e = KeyError (function_name tc)"
    by (auto simp: invoke_call_def)
  from assms(3) have len: "length pre = length rs"
    by (metis length_map)
  have ids: "map tool_call_id (map2 (\<lambda>c r. tool_message (str_results self r) (call_id c)) pre rs)
         = map (\<lambda>c. Val (call_id c)) pre"
    using len by (induction pre rs rule: list_induct2) (simp_all add: tool_message_def)
  have roles: "\<forall>m \<in> set (map2 (\<lambda>c r. tool_message (str_results self r) (call_id c)) pre rs).
           role m = ''tool''"
    by (auto simp: tool_message_def)
  have store: "execute_tools_store self s =
       (messages s @ map2 (\<lambda>c r. tool_message (str_results self r) (call_id c)) pre rs,
        Inl e)"
    using assms(1,2) execute_calls_prefix[OF assms(3,4), of post "messages s" "[]"]
    by (simp add: execute_tools_store_def)
  then have "execute_tools self s = Inl e" by (simp add: execute_tools_def)
  with store key roles ids show ?thesis by blast
qed

theorem execute_tools_not_atomic_witness:
  \<open>execute_tools_store (stub_agent default_settings False)
     (initial_sub_state stub_state
        \<lparr>messages := [tool_calls_message [stub_call, unknown_call, stub_call]]\<rparr>)
   = ([tool_calls_message [stub_call, unknown_call, stub_call],
       tool_message ''{"keywords": "ERR-404"}'' ''call_1''],
      Inl (KeyError ''lookup''))\<close>
proof -
  let ?self = "stub_agent default_settings False"
  let ?s = "initial_sub_state stub_state
        \<lparr>messages := [tool_calls_message [stub_call, unknown_call, stub_call]]\<rparr>"
  have 1: "messages ?s \<noteq> []" by simp
  have 2: "tool_calls (last (messages ?s)) = Val ([stub_call] @ unknown_call # [stub_call])"
    by (simp add: tool_calls_message_def)
  have 3: \<open>map (invoke_call ?self) [stub_call]
      = map Inr [[SearchOutput ''str'' ''{"keywords": "ERR-404"}'']]\<close>
    by (simp add: invoke_call_def tool_map_def stub_agent_def probe_tool_def stub_call_def)
  have 4: "invoke_call ?self unknown_call = Inl (KeyError ''lookup'')"
    by (simp add: invoke_call_def tool_map_def stub_agent_def probe_tool_def unknown_call_def)
  from execute_tools_not_atomic[OF 1 2 3 4] show ?thesis
    by (simp add: stub_agent_def stub_call_def)
qed

section \<open>The main graph and the join\<close>

lemma subgraph_invoke_subtask:
  "subgraph_invoke self s = Inr s' \<Longrightarrow> subtask s' = subtask s"
proof -
  assume "subgraph_invoke self s = Inr s'"
  from subgraph_invoke_rounds[OF this] obtain n where "rounds self n s = Inr s'" by blast
  from rounds_counts[OF this] show ?thesis by simp
qed

lemma execute_subgraph_Inr:
  assumes "execute_subgraph self st = Inr c"
  shows "\<exists>r. c = [r] \<and> task_name r = m_plan st ! current_step st"
proof -
  from assms obtain result where
    r: "subgraph_invoke self (initial_sub_state st) = Inr result"
    and c: "c = [\<lparr>task_name = subtask result,
                t_tool_results = tool_results result,
                t_reflection_results = reflection_results result,
                t_is_completed = is_completed result,
                t_subtask_answer = subtask_answer result,
                t_challenge_count = challenge_count result\<rparr>]"
    by (auto simp: execute_subgraph_def bind_e_Inr_iff split: if_splits)
  from subgraph_invoke_subtask[OF r] have "subtask result = m_plan st ! current_step st"
    by (simp add: initial_sub_state_def)
  with c show ?thesis by simp
qed

lemma run_children_Inr_iff:
  "run_children self sends order = Inr cs \<longleftrightarrow>
     (\<forall>i \<in> set order. \<not> isl (execute_subgraph self (send_state (sends ! i))))
     \<and> cs = map (\<lambda>i. (i, projr (execute_subgraph self (send_state (sends ! i))))) order"
proof (induction order arbitrary: cs)
  case Nil
  show ?case by auto
next
  case (Cons i order)
  show ?case
  proof (cases "execute_subgraph self (send_state (sends ! i))")
    case (Inl e)
    then show ?thesis by simp
  next
    case (Inr c)
    show ?thesis
    proof (cases "run_children self sends order")
      case (Inl e)
      with Cons.IH[of "map (\<lambda>i. (i, projr (execute_subgraph self (send_state (sends ! i))))) order"]
      have "\<not> (\<forall>i \<in> set order. \<not> isl (execute_subgraph self (send_state (sends ! i))))"
        by simp
      with Inl Inr show ?thesis by auto
    next
      case (Inr cs')
      with Cons.IH[of cs'] \<open>execute_subgraph self (send_state (sends ! i)) = Inr c\<close>
      show ?thesis by auto
    qed
  qed
qed

lemma insort_key_fst_map:
  "insort_key fst (i, g i) (map (\<lambda>j. (j, g j)) ys) = map (\<lambda>j. (j, g j)) (insort i ys)"
  by (induction ys) simp_all

lemma sort_key_fst_map:
  "sort_key fst (map (\<lambda>i. (i, g i)) xs) = map (\<lambda>i. (i, g i)) (sort xs)"
  by (induction xs) (simp_all add: insort_key_fst_map)

lemma valid_schedule_sort: "valid_schedule sch \<Longrightarrow> sort (sch n) = [0..<n]"
  by (rule sorted_distinct_set_unique) (simp_all add: valid_schedule_def)

text \<open>Under a valid schedule the children all ran, and the join yields their
  contributions in the order of the fan-out.\<close>

lemma joined_children:
  assumes "valid_schedule sch"
    and "run_children self sends (sch (length sends)) = Inr cs"
  shows "join_contributions cs =
      concat (map (\<lambda>i. projr (execute_subgraph self (send_state (sends ! i))))
                  [0..<length sends])"
    and "\<forall>i < length sends. \<not> isl (execute_subgraph self (send_state (sends ! i)))"
proof -
  let ?g = "\<lambda>i. projr (execute_subgraph self (send_state (sends ! i)))"
  from assms(2) have ok: "\<forall>i \<in> set (sch (length sends)).
        \<not> isl (execute_subgraph self (send_state (sends ! i)))"
    and cs: "cs = map (\<lambda>i. (i, ?g i)) (sch (length sends))"
    by (simp_all add: run_children_Inr_iff)
  from assms(1) have "set (sch (length sends)) = {0..<length sends}"
    by (simp add: valid_schedule_def)
  with ok show "\<forall>i < length sends. \<not> isl (execute_subgraph self (send_state (sends ! i)))"
    by simp
  show "join_contributions cs = concat (map ?g [0..<length sends])"
    unfolding join_contributions_def cs sort_key_fst_map valid_schedule_sort[OF assms(1)]
    by (simp add: comp_def)
qed

lemma children_succeed:
  assumes "valid_schedule sch"
    and "\<forall>i < length sends. \<not> isl (execute_subgraph self (send_state (sends ! i)))"
  shows "\<exists>cs. run_children self sends (sch (length sends)) = Inr cs"
proof -
  from assms(1) have "set (sch (length sends)) = {0..<length sends}"
    by (simp add: valid_schedule_def)
  with assms(2) show ?thesis by (simp add: run_children_Inr_iff)
qed

lemma sends_nth:
  "i < length p \<Longrightarrow>
     send_state (should_continue_exec_subtasks self
        \<lparr>m_question = q, m_plan = p, current_step = c, subtask_results = rs,
         last_answer = a\<rparr> ! i)
     = \<lparr>m_question = q, m_plan = p, current_step = i, subtask_results = [],
        last_answer = []\<rparr>"
  by (simp add: should_continue_exec_subtasks_def)

lemma sends_length:
  "length (should_continue_exec_subtasks self st) = length (m_plan st)"
  by (simp add: should_continue_exec_subtasks_def)

lemma concat_singletons:
  assumes "\<forall>i < n. \<exists>r. g i = [r] \<and> P i r"
  shows "length (concat (map g [0..<n])) = n
    \<and> (\<forall>i < n. P i (concat (map g [0..<n]) ! i))"
proof -
  have "map g [0..<n] = map (\<lambda>i. [hd (g i)]) [0..<n]"
    using assms by (intro map_cong) auto
  then have "concat (map g [0..<n]) = concat (map (\<lambda>i. [hd (g i)]) [0..<n])"
    by (rule arg_cong)
  then have eq: "concat (map g [0..<n]) = map (\<lambda>i. hd (g i)) [0..<n]"
    by (simp only: concat_map_singleton)
  from assms have "\<forall>i < n. P i (hd (g i))" by fastforce
  with eq show ?thesis by simp
qed

text \<open>What a successful run went through.\<close>

lemma run_agent_Inr:
  assumes "run_agent self sch q = Inr result"
  obtains p cs a where
    "create_plan self \<lparr>m_question = q, m_plan = [], current_step = 0, subtask_results = [],
        last_answer = []\<rparr> = Inr p"
    "run_children self
       (should_continue_exec_subtasks self
          \<lparr>m_question = q, m_plan = p, current_step = 0, subtask_results = [],
           last_answer = []\<rparr>)
       (sch (length p)) = Inr cs"
    "create_answer self
       \<lparr>m_question = q, m_plan = p, current_step = 0,
        subtask_results = join_contributions cs, last_answer = []\<rparr> = Inr a"
    "result = \<lparr>res_question = q, res_plan = p, subtasks = join_contributions cs,
       answer = a\<rparr>"
  using assms
  by (auto simp: run_agent_def invoke_graph_def Let_def bind_e_Inr_iff sends_length)

text \<open>
  C2. With the engine as the spec describes it, a run that returns an \<open>AgentResult\<close>
  returns one sub-task result per plan entry, the \<open>i\<close>-th describing the \<open>i\<close>-th plan
  entry, whatever the order in which the parallel children completed (any valid
  schedule).
\<close>

theorem run_agent_subtasks_follow_plan:
  assumes "valid_schedule sch" and "run_agent self sch q = Inr result"
  shows "length (subtasks result) = length (res_plan result)
    \<and> (\<forall>i < length (res_plan result).
          task_name (subtasks result ! i) = res_plan result ! i)"
proof -
  from assms(2) obtain p cs a where
    run: "run_children self
       (should_continue_exec_subtasks self
          \<lparr>m_question = q, m_plan = p, current_step = 0, subtask_results = [],
           last_answer = []\<rparr>)
       (sch (length p)) = Inr cs"
    and res: "result = \<lparr>res_question = q, res_plan = p, subtasks = join_contributions cs,
       answer = a\<rparr>"
    by (rule run_agent_Inr)
  let ?sends = "should_continue_exec_subtasks self
          \<lparr>m_question = q, m_plan = p, current_step = 0, subtask_results = [],
           last_answer = []\<rparr>"
  let ?g = "\<lambda>i. projr (execute_subgraph self (send_state (?sends ! i)))"
  have len: "length ?sends = length p" by (simp add: sends_length)
  from joined_children[OF assms(1), of self ?sends cs] run len
  have join: "join_contributions cs = concat (map ?g [0..<length p])"
    and ok: "\<forall>i < length p. \<not> isl (execute_subgraph self (send_state (?sends ! i)))"
    by simp_all
  have "\<forall>i < length p. \<exists>r. ?g i = [r] \<and> task_name r = p ! i"
  proof (intro allI impI)
    fix i assume i: "i < length p"
    with ok have "execute_subgraph self (send_state (?sends ! i)) = Inr (?g i)" by simp
    from execute_subgraph_Inr[OF this] i show "\<exists>r. ?g i = [r] \<and> task_name r = p ! i"
      by (simp add: sends_nth)
  qed
  from concat_singletons[OF this] join res show ?thesis by simp
qed

lemma stub_agent_run_result:
  "\<not> isl (stub_agent_run reverse_schedule)"
  "res_plan (projr (stub_agent_run reverse_schedule)) = [''A'', ''B'']"
proof -
  have "case stub_agent_run reverse_schedule of Inl e \<Rightarrow> False
        | Inr r \<Rightarrow> res_plan r = [''A'', ''B'']"
    by (simp add: stub_agent_run_def run_agent_def invoke_graph_def Let_def create_plan_def
        plan_request_def should_continue_exec_subtasks_def reverse_schedule_def
        numeral_2_eq_2 execute_subgraph_def subgraph_invoke.simps join_contributions_def
        create_answer_def last_answer_request_def stub_defs node_defs)
  then show "\<not> isl (stub_agent_run reverse_schedule)"
    "res_plan (projr (stub_agent_run reverse_schedule)) = [''A'', ''B'']"
    by (cases "stub_agent_run reverse_schedule"; simp)+
qed

lemma valid_reverse_schedule: "valid_schedule reverse_schedule"
  by (simp add: valid_schedule_def reverse_schedule_def)

theorem run_agent_subtasks_follow_plan_witness:
  "valid_schedule reverse_schedule
   \<and> \<not> isl (stub_agent_run reverse_schedule)
   \<and> map task_name (subtasks (projr (stub_agent_run reverse_schedule))) = [''A'', ''B'']"
proof -
  let ?r = "projr (stub_agent_run reverse_schedule)"
  have run: "run_agent (stub_agent default_settings True) reverse_schedule ''Q'' = Inr ?r"
    using stub_agent_run_result(1) by (simp add: stub_agent_run_def)
  from run_agent_subtasks_follow_plan[OF valid_reverse_schedule run]
  have "length (subtasks ?r) = 2" "task_name (subtasks ?r ! 0) = ''A''"
    "task_name (subtasks ?r ! 1) = ''B''"
    by (simp_all add: stub_agent_run_result(2))
  then have "map task_name (subtasks ?r) = [''A'', ''B'']"
    by (cases "subtasks ?r"; simp) (rename_tac x xs, case_tac xs; simp)
  with valid_reverse_schedule stub_agent_run_result(1) show ?thesis by simp
qed

section \<open>Failure of the tool selector\<close>





text \<open>An empty list of tool calls passes the check of \<open>select_tools\<close>.\<close>

lemma select_tools_empty_list:
  assumes "create (agent_client self) (select_request self s) = Inr response"
    and "c_tool_calls response = Some []"
  shows "select_tools self s =
    Inr (no_update\<lparr>u_messages := Some (select_messages self s @ [tool_calls_message []])\<rparr>)"
  using assms by (simp add: select_tools_def)

section \<open>The retry budget and the settings\<close>

lemma set_field_max_challenges: "set_field st (''max_challenges'', v) = st"
  by simp

lemma foldl_set_field_ignores:
  "foldl set_field st (filter (\<lambda>kv. fst kv \<noteq> ''max_challenges'') kvs)
     = foldl set_field st kvs"
proof (induction kvs arbitrary: st)
  case Nil
  show ?case by simp
next
  case (Cons kv kvs)
  obtain k v where kv: "kv = (k, v)" by (cases kv)
  show ?case
  proof (cases "k = ''max_challenges''")
    case True
    with kv Cons.IH[of st] show ?thesis by (simp del: set_field.simps add: set_field_max_challenges)
  next
    case False
    with kv Cons.IH[of "set_field st kv"] show ?thesis by (simp del: set_field.simps)
  qed
qed

text \<open>
  C9, as stated: \<open>max_challenges\<close> is a configuration key and the loop's bound is the
  configured value. \<open>Settings\<close> built with \<open>max_challenges = 5\<close> are the default
  settings, and the stub's never accepted sub-task stops at \<open>challenge_count = 3\<close>, not 5.
\<close>

theorem max_challenges_key_counterexample:
  "Settings [(''max_challenges'', ''5'')] = default_settings
   \<and> \<not> isl (stub_run (Settings [(''max_challenges'', ''5'')]))
   \<and> \<not> is_completed (projr (stub_run (Settings [(''max_challenges'', ''5'')])))
   \<and> challenge_count (projr (stub_run (Settings [(''max_challenges'', ''5'')]))) = 3"
  using stub_run_fields[of "Settings [(''max_challenges'', ''5'')]"]
  by (simp add: Settings_def)

text \<open>
  C9, amended: the retry budget is the module constant \<open>MAX_CHALLENGE_COUNT = 3\<close>.
  \<open>Settings\<close> has no field \<open>max_challenges\<close> and ignores such a key, and whatever the
  settings of the agent, the conditional edge ends the loop exactly when \<open>is_completed\<close>
  or \<open>challenge_count \<ge> 3\<close>, so a loop started at 0 returns with
  \<open>challenge_count \<le> 3\<close>.
\<close>

theorem retry_budget_is_constant:
  "Settings (filter (\<lambda>kv. fst kv \<noteq> ''max_challenges'') kvs) = Settings kvs
   \<and> MAX_CHALLENGE_COUNT = 3
   \<and> (should_continue_exec_subtask_flow (self\<lparr>agent_settings := st\<rparr>) s = End
        \<longleftrightarrow> is_completed s \<or> challenge_count s \<ge> 3)
   \<and> (challenge_count s = 0 \<and> subgraph_invoke (self\<lparr>agent_settings := st\<rparr>) s = Inr s'
        \<longrightarrow> challenge_count s' \<le> 3)"
proof -
  have a: "Settings (filter (\<lambda>kv. fst kv \<noteq> ''max_challenges'') kvs) = Settings kvs"
    unfolding Settings_def by (rule foldl_set_field_ignores)
  have b: "MAX_CHALLENGE_COUNT = 3" by (simp add: MAX_CHALLENGE_COUNT_def)
  have c: "should_continue_exec_subtask_flow (self\<lparr>agent_settings := st\<rparr>) s = End
        \<longleftrightarrow> is_completed s \<or> challenge_count s \<ge> 3"
    by (simp add: should_continue_exec_subtask_flow_def MAX_CHALLENGE_COUNT_def)
  have d: "challenge_count s' \<le> 3"
    if z: "challenge_count s = 0"
      and r: "subgraph_invoke (self\<lparr>agent_settings := st\<rparr>) s = Inr s'"
  proof -
    from subgraph_invoke_rounds[OF r] obtain n where
      n: "rounds (self\<lparr>agent_settings := st\<rparr>) n s = Inr s'"
      "\<forall>k. 1 \<le> k \<and> k < n \<longrightarrow> (\<exists>sk. rounds (self\<lparr>agent_settings := st\<rparr>) k s = Inr sk
         \<and> should_continue_exec_subtask_flow (self\<lparr>agent_settings := st\<rparr>) sk = Continue)"
      by blast
    from continue_bounds_rounds[OF z n(2)] rounds_counts[OF n(1)] z show ?thesis by simp
  qed
  from a b c d show ?thesis by blast
qed

theorem retry_budget_is_constant_witness:
  "challenge_count (initial_sub_state stub_state) = 0
   \<and> \<not> isl (stub_run (Settings [(''max_challenges'', ''5'')]))
   \<and> challenge_count (projr (stub_run (Settings [(''max_challenges'', ''5'')]))) \<le> 3
   \<and> Settings [] = Settings [(''max_challenges'', ''5'')]"
proof -
  let ?st = "Settings [(''max_challenges'', ''5'')]"
  have init: "challenge_count (initial_sub_state stub_state) = 0"
    by (simp add: initial_sub_state_def)
  have self: "stub_agent default_settings False\<lparr>agent_settings := ?st\<rparr> = stub_agent ?st False"
    by (simp add: stub_agent_def)
  have run: "subgraph_invoke (stub_agent default_settings False\<lparr>agent_settings := ?st\<rparr>)
        (initial_sub_state stub_state) = Inr (projr (stub_run ?st))"
    using stub_run_fields(1)[of ?st] by (simp add: self stub_run_def)
  from retry_budget_is_constant[where kvs = "[(''max_challenges'', ''5'')]"
      and self = "stub_agent default_settings False" and st = ?st
      and s = "initial_sub_state stub_state" and s' = "projr (stub_run ?st)"]
    init run stub_run_fields(1)[of ?st]
  show ?thesis by simp
qed

section \<open>Pinned sampling parameters and reproducible runs\<close>

lemma pinned_requests [simp]:
  "pinned (plan_request self st)" "pinned (select_request self s)"
  "pinned (answer_request self ms)" "pinned (reflect_request self s)"
  "pinned (last_answer_request self st)"
  by (simp_all add: pinned_def plan_request_def select_request_def answer_request_def
      reflect_request_def last_answer_request_def)

lemma requests_other_client [simp]:
  "plan_request (self\<lparr>agent_client := c\<rparr>) st = plan_request self st"
  "select_request (self\<lparr>agent_client := c\<rparr>) s = select_request self s"
  "select_messages (self\<lparr>agent_client := c\<rparr>) s = select_messages self s"
  "answer_request (self\<lparr>agent_client := c\<rparr>) ms = answer_request self ms"
  "reflect_request (self\<lparr>agent_client := c\<rparr>) s = reflect_request self s"
  "reflect_messages (self\<lparr>agent_client := c\<rparr>) s = reflect_messages self s"
  "last_answer_request (self\<lparr>agent_client := c\<rparr>) st = last_answer_request self st"
  by (simp_all add: plan_request_def select_request_def select_messages_def
      answer_request_def reflect_request_def reflect_messages_def last_answer_request_def)

lemma execute_calls_other_client:
  "execute_calls (self\<lparr>agent_client := c\<rparr>) tcs ms acc = execute_calls self tcs ms acc"
  by (induction tcs arbitrary: ms acc)
     (simp_all add: invoke_call_def tool_map_def split: sum.splits option.splits)

lemma execute_tools_other_client:
  "execute_tools (self\<lparr>agent_client := c\<rparr>) = execute_tools self"
  by (rule ext)
     (simp add: execute_tools_def execute_tools_store_def execute_calls_other_client
       cong: field.case_cong)

lemma nodes_agree:
  assumes "agree_on_pinned (agent_client self) c"
  shows "select_tools (self\<lparr>agent_client := c\<rparr>) = select_tools self"
    and "create_subtask_answer (self\<lparr>agent_client := c\<rparr>) = create_subtask_answer self"
    and "reflect_subtask (self\<lparr>agent_client := c\<rparr>) = reflect_subtask self"
    and "create_plan (self\<lparr>agent_client := c\<rparr>) = create_plan self"
    and "create_answer (self\<lparr>agent_client := c\<rparr>) = create_answer self"
proof -
  from assms have eq:
    "\<And>r. pinned r \<Longrightarrow> create c r = create (agent_client self) r"
    "\<And>r. pinned r \<Longrightarrow> parse_plan c r = parse_plan (agent_client self) r"
    "\<And>r. pinned r \<Longrightarrow> parse_reflection c r = parse_reflection (agent_client self) r"
    by (simp_all add: agree_on_pinned_def)
  show "select_tools (self\<lparr>agent_client := c\<rparr>) = select_tools self"
    by (rule ext) (simp add: select_tools_def eq cong: option.case_cong)
  show "create_subtask_answer (self\<lparr>agent_client := c\<rparr>) = create_subtask_answer self"
    by (rule ext) (simp add: create_subtask_answer_def eq)
  show "reflect_subtask (self\<lparr>agent_client := c\<rparr>) = reflect_subtask self"
    by (rule ext) (simp add: reflect_subtask_def eq cong: option.case_cong)
  show "create_plan (self\<lparr>agent_client := c\<rparr>) = create_plan self"
    by (rule ext) (simp add: create_plan_def eq)
  show "create_answer (self\<lparr>agent_client := c\<rparr>) = create_answer self"
    by (rule ext) (simp add: create_answer_def eq)
qed

lemma subgraph_round_agree:
  assumes "agree_on_pinned (agent_client self) c"
  shows "subgraph_round (self\<lparr>agent_client := c\<rparr>) s = subgraph_round self s"
  by (simp add: subgraph_round_def nodes_agree[OF assms] execute_tools_other_client)

lemma subgraph_invoke_agree:
  assumes "agree_on_pinned (agent_client self) c"
  shows "subgraph_invoke (self\<lparr>agent_client := c\<rparr>) s = subgraph_invoke self s"
  using assms
proof (induction self s rule: subgraph_invoke.induct)
  case (1 self s)
  note agree = "1.prems"
  show ?case
  proof (cases "subgraph_round self s")
    case (Inl e)
    then show ?thesis
      by (simp add: subgraph_invoke.simps[of self s]
          subgraph_invoke.simps[of "self\<lparr>agent_client := c\<rparr>" s] subgraph_round_agree[OF agree])
  next
    case (Inr s1)
    show ?thesis
    proof (cases "should_continue_exec_subtask_flow self s1")
      case End
      with Inr show ?thesis
        by (simp add: subgraph_invoke.simps[of self s]
            subgraph_invoke.simps[of "self\<lparr>agent_client := c\<rparr>" s]
            subgraph_round_agree[OF agree] should_continue_exec_subtask_flow_def)
    next
      case Continue
      from "1.IH"[OF Inr Continue agree] Inr Continue show ?thesis
        by (simp add: subgraph_invoke.simps[of self s]
            subgraph_invoke.simps[of "self\<lparr>agent_client := c\<rparr>" s]
            subgraph_round_agree[OF agree] should_continue_exec_subtask_flow_def)
    qed
  qed
qed

lemma execute_subgraph_agree:
  assumes "agree_on_pinned (agent_client self) c"
  shows "execute_subgraph (self\<lparr>agent_client := c\<rparr>) st = execute_subgraph self st"
  by (simp add: execute_subgraph_def subgraph_invoke_agree[OF assms])

text \<open>
  C6. Each of the five requests the agent builds (planner, tool selector, answer
  synthesizer, reflector, aggregator) has \<open>temperature = 0\<close> and \<open>seed = 0\<close>, and a run
  issues no other request: a run that returns an \<open>AgentResult\<close> returns the same one
  with any provider that answers the pinned requests alike, and under any order of
  completion of the parallel children. The provider and the tools being functions of
  what they are given, two runs on one question return identical results.
\<close>

theorem pinned_requests_make_runs_reproducible:
  assumes "valid_schedule sch" and "valid_schedule sch'"
    and "agree_on_pinned (agent_client self) c"
    and "run_agent self sch q = Inr result"
  shows "run_agent (self\<lparr>agent_client := c\<rparr>) sch' q = Inr result
    \<and> pinned (plan_request self st) \<and> pinned (select_request self s)
    \<and> pinned (answer_request self ms) \<and> pinned (reflect_request self s)
    \<and> pinned (last_answer_request self st)"
proof -
  let ?self' = "self\<lparr>agent_client := c\<rparr>"
  from assms(4) obtain p cs a where
    plan: "create_plan self \<lparr>m_question = q, m_plan = [], current_step = 0,
        subtask_results = [], last_answer = []\<rparr> = Inr p"
    and run: "run_children self
       (should_continue_exec_subtasks self
          \<lparr>m_question = q, m_plan = p, current_step = 0, subtask_results = [],
           last_answer = []\<rparr>)
       (sch (length p)) = Inr cs"
    and ans: "create_answer self
       \<lparr>m_question = q, m_plan = p, current_step = 0,
        subtask_results = join_contributions cs, last_answer = []\<rparr> = Inr a"
    and res: "result = \<lparr>res_question = q, res_plan = p, subtasks = join_contributions cs,
       answer = a\<rparr>"
    by (rule run_agent_Inr)
  let ?st1 = "\<lparr>m_question = q, m_plan = p, current_step = 0, subtask_results = [],
           last_answer = []\<rparr>"
  let ?sends = "should_continue_exec_subtasks self ?st1"
  have sends': "should_continue_exec_subtasks ?self' ?st1 = ?sends"
    by (simp add: should_continue_exec_subtasks_def)
  have len: "length ?sends = length p" by (simp add: sends_length)
  from joined_children[OF assms(1), of self ?sends cs] run len
  have join: "join_contributions cs =
      concat (map (\<lambda>i. projr (execute_subgraph self (send_state (?sends ! i))))
                  [0..<length ?sends])"
    and ok: "\<forall>i < length ?sends. \<not> isl (execute_subgraph self (send_state (?sends ! i)))"
    by simp_all
  from ok have ok': "\<forall>i < length ?sends.
      \<not> isl (execute_subgraph ?self' (send_state (?sends ! i)))"
    by (simp add: execute_subgraph_agree[OF assms(3)])
  from children_succeed[OF assms(2) ok'] obtain cs' where
    run': "run_children ?self' ?sends (sch' (length ?sends)) = Inr cs'" by blast
  from joined_children(1)[OF assms(2) run'] join
  have join': "join_contributions cs' = join_contributions cs"
    by (simp add: execute_subgraph_agree[OF assms(3)])
  from plan run' ans res have "run_agent ?self' sch' q = Inr result"
    by (simp add: run_agent_def invoke_graph_def Let_def nodes_agree[OF assms(3)]
        sends' len join')
  then show ?thesis by simp
qed

lemma agree_pinned_only: "agree_on_pinned (stub_client True) pinned_only_client"
  by (simp add: agree_on_pinned_def pinned_only_client_def)

theorem pinned_requests_make_runs_reproducible_witness:
  "valid_schedule reverse_schedule \<and> valid_schedule (\<lambda>n. [0..<n])
   \<and> agree_on_pinned (stub_client True) pinned_only_client
   \<and> \<not> isl (stub_agent_run reverse_schedule)
   \<and> run_agent (stub_agent default_settings True\<lparr>agent_client := pinned_only_client\<rparr>)
        (\<lambda>n. [0..<n]) ''Q''
      = stub_agent_run reverse_schedule"
proof -
  let ?self = "stub_agent default_settings True"
  have v: "valid_schedule (\<lambda>n. [0..<n])" by (simp add: valid_schedule_def)
  have a: "agree_on_pinned (agent_client ?self) pinned_only_client"
    using agree_pinned_only by (simp add: stub_agent_def)
  have run: "run_agent ?self reverse_schedule ''Q'' = Inr (projr (stub_agent_run reverse_schedule))"
    using stub_agent_run_result(1) by (simp add: stub_agent_run_def)
  from pinned_requests_make_runs_reproducible[OF valid_reverse_schedule v a run]
  have "run_agent (?self\<lparr>agent_client := pinned_only_client\<rparr>) (\<lambda>n. [0..<n]) ''Q''
      = Inr (projr (stub_agent_run reverse_schedule))" by simp
  with valid_reverse_schedule v agree_pinned_only stub_agent_run_result(1) show ?thesis
    by simp
qed

end
